theory Spec2Isabelle
  imports
    Main
    "HOL-Library.Word"
    "HOL-Library.Char_ord"
    "HOL-Library.List_Lexorder"
    "HOL-Library.Sublist"
begin

section \<open>The node implementation of rclcpp (\<open>rclcpp/node_impl.hpp\<close>)\<close>

text \<open>
  The development embeds \<open>src/rclcpp/include/rclcpp/node_impl.hpp\<close>: the callback group
  registry of a node, the binding of new entities to callback groups, and the parameter
  store. A 64-bit platform is assumed: \<open>size_t\<close> and \<open>uint64_t\<close> are \<open>64 word\<close>.
\<close>

subsection \<open>Strings\<close>

text \<open>
  \<open>std::string\<close> is \<^typ>\<open>string\<close>; its order (the key order of \<open>std::map\<close>) is the
  lexicographic order on bytes, which is the order of \<open>HOL-Library.List_Lexorder\<close> over
  \<open>HOL-Library.Char_ord\<close>. A position that may be \<open>std::string::npos\<close> is a
  \<^typ>\<open>nat option\<close> with \<^const>\<open>None\<close> for \<open>npos\<close>.
\<close>

text \<open>\<open>s.find(t)\<close>: the first position at which \<open>t\<close> occurs in \<open>s\<close>.\<close>

fun string_find :: "string \<Rightarrow> string \<Rightarrow> nat option" where
  "string_find [] t = (if t = [] then Some 0 else None)"
| "string_find (c # s) t =
     (if prefix t (c # s) then Some 0 else map_option Suc (string_find s t))"

text \<open>\<open>s.find_last_of(c)\<close>: the last position of the character \<open>c\<close> in \<open>s\<close>.\<close>

fun find_last_of :: "string \<Rightarrow> char \<Rightarrow> nat option" where
  "find_last_of [] c = None"
| "find_last_of (d # s) c =
     (case find_last_of s c of
        Some i \<Rightarrow> Some (Suc i)
      | None \<Rightarrow> if d = c then Some 0 else None)"

text \<open>
  \<open>s.substr(pos)\<close> for \<open>pos \<le> s.size()\<close> (the only use, in \<open>list_parameters\<close>, is guarded
  by a successful \<open>find\<close> of a string at least \<open>pos\<close> long), and \<open>s.substr(0, len)\<close>, where
  \<open>len\<close> may be \<open>npos\<close> and is cut to the size of \<open>s\<close>.
\<close>

definition substr :: "string \<Rightarrow> nat \<Rightarrow> string" where
  "substr s pos = drop pos s"

definition substr0 :: "string \<Rightarrow> nat option \<Rightarrow> string" where
  "substr0 s len = (case len of None \<Rightarrow> s | Some l \<Rightarrow> take l s)"

text \<open>\<open>std::any_of(xs.cbegin(), xs.cend(), P)\<close>.\<close>

primrec any_of :: "'a list \<Rightarrow> ('a \<Rightarrow> bool) \<Rightarrow> bool" where
  "any_of [] P = False"
| "any_of (x # xs) P = (P x \<or> any_of xs P)"

subsection \<open>\<open>std::map\<close> with string keys\<close>

text \<open>
  A \<open>std::map<std::string, V>\<close> is the list of its entries in iteration order, that is
  by strictly increasing key.
\<close>

type_synonym 'v string_map = "(string \<times> 'v) list"

definition map_ok :: "'v string_map \<Rightarrow> bool" where
  "map_ok m = sorted_wrt (<) (map fst m)"

text \<open>\<open>m[k] = v\<close>: insert the key or overwrite its value.\<close>

fun map_assign :: "string \<Rightarrow> 'v \<Rightarrow> 'v string_map \<Rightarrow> 'v string_map" where
  "map_assign k v [] = [(k, v)]"
| "map_assign k v ((k', v') # m) =
     (if k' < k then (k', v') # map_assign k v m
      else if k' = k then (k, v) # m
      else (k, v) # (k', v') # m)"

text \<open>\<open>m.insert({k, v})\<close>: insert the key unless it is present; never overwrites.\<close>

fun map_insert :: "string \<Rightarrow> 'v \<Rightarrow> 'v string_map \<Rightarrow> 'v string_map" where
  "map_insert k v [] = [(k, v)]"
| "map_insert k v ((k', v') # m) =
     (if k' < k then (k', v') # map_insert k v m
      else if k' = k then (k', v') # m
      else (k, v) # (k', v') # m)"

text \<open>\<open>m.insert(first, last)\<close>: \<open>insert\<close> of every entry of the range, in order.\<close>

definition map_insert_range :: "'v string_map \<Rightarrow> 'v string_map \<Rightarrow> 'v string_map" where
  "map_insert_range entries m = fold (\<lambda>(k, v). map_insert k v) entries m"

subsection \<open>Parameters\<close>

text \<open>
  Modelled from the spec: the parameter types of \<open>rcl_interfaces\<close> and the class
  \<open>rclcpp::parameter::ParameterVariant\<close> (\<open>parameter.hpp\<close> and the generated message
  headers are not among the sources). A parameter variant has a name and a value tagged
  with its type; \<open>from_parameter\<close> copies both from the message, \<open>get_type\<close> reads the tag.
  A double is kept as its 64 bits: the node only stores and returns it.
\<close>

datatype ParameterType =
    PARAMETER_NOT_SET
  | PARAMETER_BOOL
  | PARAMETER_INTEGER
  | PARAMETER_DOUBLE
  | PARAMETER_STRING

datatype ParameterValue =
    NotSetValue
  | BoolValue bool
  | IntegerValue "64 word"
  | DoubleValue "64 word"
  | StringValue string

record Parameter =
  name :: string
  "value" :: ParameterValue

record ParameterVariant =
  variant_name :: string
  variant_value :: ParameterValue

definition from_parameter :: "Parameter \<Rightarrow> ParameterVariant" where
  "from_parameter p = \<lparr>variant_name = name p, variant_value = value p\<rparr>"

definition get_type :: "ParameterVariant \<Rightarrow> ParameterType" where
  "get_type v =
     (case variant_value v of
        NotSetValue \<Rightarrow> PARAMETER_NOT_SET
      | BoolValue b \<Rightarrow> PARAMETER_BOOL
      | IntegerValue i \<Rightarrow> PARAMETER_INTEGER
      | DoubleValue d \<Rightarrow> PARAMETER_DOUBLE
      | StringValue s \<Rightarrow> PARAMETER_STRING)"

record SetParametersResult =
  successful :: bool

record ParameterDescriptor =
  descriptor_name :: string
  parameter_type :: ParameterType

record ListParametersResult =
  parameter_names :: "string list"
  parameter_prefixes :: "string list"

subsection \<open>Callback groups and the heap\<close>

text \<open>
  Modelled from the spec: the class \<open>CallbackGroup\<close> (\<open>callback_group.hpp\<close> is not among
  the sources): a type and, for each kind of entity, the set of non-owning references to
  the entities added to the group. Its constructor takes the type and starts with empty
  sets; \<open>add_subscription\<close>, \<open>add_timer\<close>, \<open>add_client\<close> and \<open>add_service\<close> add a reference
  to the set of their kind.
\<close>

datatype CallbackGroupType = MutuallyExclusive | Reentrant

record CallbackGroup =
  group_type :: CallbackGroupType
  subscriptions :: "nat set"
  timers :: "nat set"
  clients :: "nat set"
  services :: "nat set"

definition new_CallbackGroup :: "CallbackGroupType \<Rightarrow> CallbackGroup" where
  "new_CallbackGroup t =
     \<lparr>group_type = t, subscriptions = {}, timers = {}, clients = {}, services = {}\<rparr>"

definition add_subscription :: "nat \<Rightarrow> CallbackGroup \<Rightarrow> CallbackGroup" where
  "add_subscription e g = g\<lparr>subscriptions := insert e (subscriptions g)\<rparr>"

definition add_timer :: "nat \<Rightarrow> CallbackGroup \<Rightarrow> CallbackGroup" where
  "add_timer e g = g\<lparr>timers := insert e (timers g)\<rparr>"

definition add_client :: "nat \<Rightarrow> CallbackGroup \<Rightarrow> CallbackGroup" where
  "add_client e g = g\<lparr>clients := insert e (clients g)\<rparr>"

definition add_service :: "nat \<Rightarrow> CallbackGroup \<Rightarrow> CallbackGroup" where
  "add_service e g = g\<lparr>services := insert e (services g)\<rparr>"

text \<open>
  Objects made with \<open>new\<close> or \<open>make_shared\<close> get an identity that is never used again
  (\<open>next_id\<close> counts them). The heap maps the identity of every live callback group to
  the object. A \<open>shared_ptr\<close> to a callback group is a \<^typ>\<open>nat option\<close>, \<^const>\<open>None\<close>
  for the null pointer; two of them are equal when they point to the same object. A
  \<open>weak_ptr\<close> is the identity alone: \<open>lock\<close> gives a pointer to the object while it is
  live and the null pointer once it has expired.
\<close>

record world =
  groups :: "nat \<rightharpoonup> CallbackGroup"
  next_id :: nat

definition lock :: "world \<Rightarrow> nat \<Rightarrow> nat option" where
  "lock w r = (case groups w r of None \<Rightarrow> None | Some obj \<Rightarrow> Some r)"

definition make_shared :: "world \<Rightarrow> nat \<times> world" where
  "make_shared w = (next_id w, w\<lparr>next_id := Suc (next_id w)\<rparr>)"

subsection \<open>The node\<close>

text \<open>
  The members of \<open>Node\<close> that \<open>node_impl.hpp\<close> uses (the class is declared in \<open>node.hpp\<close>,
  which is not among the sources). The context and the handle of the middleware are
  opaque. \<open>callback_groups\<close> holds weak pointers, \<open>default_callback_group\<close> a shared one.
\<close>

record Node =
  node_name :: string
  node_context :: nat
  node_handle :: nat
  default_callback_group :: "nat option"
  callback_groups :: "nat list"
  number_of_subscriptions :: "64 word"
  number_of_timers :: "64 word"
  number_of_services :: "64 word"
  number_of_clients :: "64 word"
  parameters :: "ParameterVariant string_map"

text \<open>
  What a call does besides returning: it throws \<open>std::runtime_error\<close> with a message, or
  it dereferences a pointer that is null or dangling.
\<close>

datatype failure = runtime_error string | undefined_behaviour

text \<open>
  \<open>Node::create_callback_group\<close>: a new group object, a weak pointer to it at the end of
  \<open>callback_groups\<close>, and the shared pointer returned.
\<close>

definition create_callback_group ::
  "CallbackGroupType \<Rightarrow> world \<times> Node \<Rightarrow> nat \<times> world \<times> Node" where
  "create_callback_group t s =
     (case s of (w, n) \<Rightarrow>
        let (g, w1) = make_shared w;
            w2 = w1\<lparr>groups := (groups w1)(g \<mapsto> new_CallbackGroup t)\<rparr>
        in (g, w2, n\<lparr>callback_groups := callback_groups n @ [g]\<rparr>))"

text \<open>
  \<open>Node::Node(node_name, context)\<close>. The member initialisers set the name, the context
  and three of the four counters; \<open>number_of_clients_\<close> is not in the list, so it keeps
  what it held before the constructor ran: \<open>clients0\<close>, the value of the member's
  declaration in \<open>node.hpp\<close> if that gives one and otherwise whatever the storage contains.
  \<open>handle\<close> is the answer of \<open>rmw_create_node\<close>.
\<close>

definition Node_Node :: "string \<Rightarrow> nat \<Rightarrow> nat \<Rightarrow> 64 word \<Rightarrow> world \<Rightarrow> world \<times> Node" where
  "Node_Node nm ctx handle clients0 w =
     (let n0 = \<lparr>node_name = nm, node_context = ctx, node_handle = 0,
                default_callback_group = None, callback_groups = [],
                number_of_subscriptions = 0, number_of_timers = 0,
                number_of_services = 0, number_of_clients = clients0,
                parameters = []\<rparr>;
          n1 = n0\<lparr>node_handle := handle\<rparr>;
          (g, w', n2) = create_callback_group MutuallyExclusive (w, n1)
      in (w', n2\<lparr>default_callback_group := Some g\<rparr>))"

text \<open>
  \<open>Node::group_in_node\<close>: the loop over \<open>callback_groups_\<close>, with the flag it sets.
\<close>

definition group_in_node :: "nat option \<Rightarrow> world \<Rightarrow> Node \<Rightarrow> bool" where
  "group_in_node grp w n =
     fold (\<lambda>weak_group group_belongs_to_this_node.
             let cur_group = lock w weak_group
             in if cur_group \<noteq> None \<and> cur_group = grp then True
                else group_belongs_to_this_node)
          (callback_groups n) False"

subsection \<open>Creating entities\<close>

text \<open>
  \<open>p->f(e)\<close> for a shared pointer \<open>p\<close> to a callback group and one of its \<open>add_\<close> members:
  the object is updated in the heap; there is no result when \<open>p\<close> is null or dangling.
\<close>

definition arrow :: "nat option \<Rightarrow> (CallbackGroup \<Rightarrow> CallbackGroup) \<Rightarrow> world \<Rightarrow> world option" where
  "arrow p f w =
     (case p of
        None \<Rightarrow> None
      | Some g \<Rightarrow>
          (case groups w g of
             None \<Rightarrow> None
           | Some obj \<Rightarrow> Some (w\<lparr>groups := (groups w)(g \<mapsto> f obj)\<rparr>)))"

text \<open>
  \<open>Node::create_publisher\<close>: the handle of the middleware and the publisher object; no
  member of the node is written. (The handles of the middleware and the callbacks are
  not part of the state of the node and are left out of all five functions.)
\<close>

definition create_publisher :: "string \<Rightarrow> 64 word \<Rightarrow> world \<times> Node \<Rightarrow> nat \<times> world \<times> Node" where
  "create_publisher topic_name queue_size s =
     (case s of (w, n) \<Rightarrow>
        let (pub, w1) = make_shared w
        in (pub, w1, n))"

text \<open>
  \<open>Node::create_subscription\<close>. When the exception is thrown the subscription object is
  destroyed again; its identity stays used.
\<close>

definition create_subscription ::
  "string \<Rightarrow> 64 word \<Rightarrow> nat option \<Rightarrow> world \<times> Node \<Rightarrow> (failure + nat) \<times> world \<times> Node" where
  "create_subscription topic_name queue_size grp s =
     (case s of (w, n) \<Rightarrow>
        let (sub, w1) = make_shared w
        in if grp \<noteq> None \<and> \<not> group_in_node grp w1 n
           then (Inl (runtime_error ''Cannot create timer, group not in node.''), w1, n)
           else
             (case arrow (if grp \<noteq> None then grp else default_callback_group n)
                     (add_subscription sub) w1 of
                None \<Rightarrow> (Inl undefined_behaviour, w1, n)
              | Some w2 \<Rightarrow>
                  (Inr sub, w2,
                   n\<lparr>number_of_subscriptions := number_of_subscriptions n + 1\<rparr>)))"

text \<open>
  \<open>Node::create_wall_timer\<close> with a period in nanoseconds. (The overload that takes a
  \<open>long double\<close> duration casts it to nanoseconds and calls this one.)
\<close>

definition create_wall_timer ::
  "64 word \<Rightarrow> nat option \<Rightarrow> world \<times> Node \<Rightarrow> (failure + nat) \<times> world \<times> Node" where
  "create_wall_timer period grp s =
     (case s of (w, n) \<Rightarrow>
        let (timer, w1) = make_shared w
        in if grp \<noteq> None \<and> \<not> group_in_node grp w1 n
           then (Inl (runtime_error ''Cannot create timer, group not in node.''), w1, n)
           else
             (case arrow (if grp \<noteq> None then grp else default_callback_group n)
                     (add_timer timer) w1 of
                None \<Rightarrow> (Inl undefined_behaviour, w1, n)
              | Some w2 \<Rightarrow>
                  (Inr timer, w2, n\<lparr>number_of_timers := number_of_timers n + 1\<rparr>)))"

text \<open>\<open>Node::create_client\<close>.\<close>

definition create_client ::
  "string \<Rightarrow> nat option \<Rightarrow> world \<times> Node \<Rightarrow> (failure + nat) \<times> world \<times> Node" where
  "create_client service_name grp s =
     (case s of (w, n) \<Rightarrow>
        let (cli, w1) = make_shared w
        in if grp \<noteq> None \<and> \<not> group_in_node grp w1 n
           then (Inl (runtime_error ''Cannot create client, group not in node.''), w1, n)
           else
             (case arrow (if grp \<noteq> None then grp else default_callback_group n)
                     (add_client cli) w1 of
                None \<Rightarrow> (Inl undefined_behaviour, w1, n)
              | Some w2 \<Rightarrow>
                  (Inr cli, w2, n\<lparr>number_of_clients := number_of_clients n + 1\<rparr>)))"

text \<open>\<open>Node::create_service\<close>.\<close>

definition create_service ::
  "string \<Rightarrow> nat option \<Rightarrow> world \<times> Node \<Rightarrow> (failure + nat) \<times> world \<times> Node" where
  "create_service service_name grp s =
     (case s of (w, n) \<Rightarrow>
        let (serv, w1) = make_shared w
        in if grp \<noteq> None \<and> \<not> group_in_node grp w1 n
           then (Inl (runtime_error ''Cannot create service, group not in node.''), w1, n)
           else
             (case arrow (if grp \<noteq> None then grp else default_callback_group n)
                     (add_service serv) w1 of
                None \<Rightarrow> (Inl undefined_behaviour, w1, n)
              | Some w2 \<Rightarrow>
                  (Inr serv, w2, n\<lparr>number_of_services := number_of_services n + 1\<rparr>)))"

text \<open>
  The error the design calls \<open>GroupNotOwned\<close>: the \<open>std::runtime_error\<close> whose message
  says that the group is not in the node.
\<close>

fun GroupNotOwned :: "failure \<Rightarrow> bool" where
  "GroupNotOwned (runtime_error msg) = suffix '', group not in node.'' msg"
| "GroupNotOwned undefined_behaviour = False"

subsection \<open>The parameter store\<close>

text \<open>
  Every function holds the mutex of the node from its first to its last statement; a
  call is one step on the state of the node.
\<close>

text \<open>\<open>Node::set_parameters\<close>.\<close>

definition set_parameters :: "Parameter list \<Rightarrow> Node \<Rightarrow> SetParametersResult list \<times> Node" where
  "set_parameters ps n =
     fold (\<lambda>p (results, n').
             (results @ [\<lparr>successful = True\<rparr>],
              n'\<lparr>parameters := map_assign (name p) (from_parameter p) (parameters n')\<rparr>))
          ps ([], n)"

text \<open>
  \<open>Node::set_parameters_atomically\<close>: \<open>staging ps\<close> is \<open>tmp_map\<close> after the loop.
\<close>

definition staging :: "Parameter list \<Rightarrow> ParameterVariant string_map" where
  "staging ps = fold (\<lambda>p tmp_map. map_assign (name p) (from_parameter p) tmp_map) ps []"

definition set_parameters_atomically :: "Parameter list \<Rightarrow> Node \<Rightarrow> SetParametersResult \<times> Node" where
  "set_parameters_atomically ps n =
     (let tmp_map = staging ps;
          tmp_map' = map_insert_range (parameters n) tmp_map
      in (\<lparr>successful = True\<rparr>, n\<lparr>parameters := tmp_map'\<rparr>))"

text \<open>\<open>Node::get_parameters\<close>.\<close>

definition get_parameters :: "string list \<Rightarrow> Node \<Rightarrow> ParameterVariant list" where
  "get_parameters names n =
     fold (\<lambda>kv results.
             if any_of names (\<lambda>nm. nm = fst kv) then results @ [snd kv] else results)
          (parameters n) []"

text \<open>\<open>Node::describe_parameters\<close>.\<close>

definition describe_parameters :: "string list \<Rightarrow> Node \<Rightarrow> ParameterDescriptor list" where
  "describe_parameters names n =
     fold (\<lambda>kv results.
             if any_of names (\<lambda>nm. nm = fst kv)
             then results @ [\<lparr>descriptor_name = fst kv, parameter_type = get_type (snd kv)\<rparr>]
             else results)
          (parameters n) []"

text \<open>\<open>Node::get_parameter_types\<close>: the loop runs over the entries of the store.\<close>

definition get_parameter_types :: "string list \<Rightarrow> Node \<Rightarrow> ParameterType list" where
  "get_parameter_types names n =
     fold (\<lambda>kv results.
             if any_of names (\<lambda>nm. nm = fst kv)
             then results @ [get_type (snd kv)]
             else results @ [PARAMETER_NOT_SET])
          (parameters n) []"

text \<open>
  \<open>Node::list_parameters\<close>. \<open>matches_prefix\<close> is the lambda given to \<open>std::any_of\<close>;
  \<open>std::count\<close> gives a signed number that the comparison with \<open>depth\<close> converts to
  \<open>uint64_t\<close>.
\<close>

definition matches_prefix :: "string \<Rightarrow> 64 word \<Rightarrow> string \<Rightarrow> bool" where
  "matches_prefix key depth pfx =
     (if string_find key (pfx @ ''.'') = Some 0
      then (let len = length pfx;
                sub = substr key len
            in word_of_nat (count_list sub CHR ''.'') < depth)
      else False)"

definition list_parameters :: "string list \<Rightarrow> 64 word \<Rightarrow> Node \<Rightarrow> ListParametersResult list" where
  "list_parameters prefix_list depth n =
     fold (\<lambda>kv results.
             if any_of prefix_list (matches_prefix (fst kv) depth)
             then
               (let result = \<lparr>parameter_names = [fst kv], parameter_prefixes = []\<rparr>;
                    last_separator = find_last_of (fst kv) CHR ''.'';
                    pfx = substr0 (fst kv) last_separator;
                    result' =
                      (if pfx \<notin> set (parameter_prefixes result)
                       then result\<lparr>parameter_prefixes := parameter_prefixes result @ [pfx]\<rparr>
                       else result)
                in results @ [result'])
             else results)
          (parameters n) []"

subsection \<open>A first node\<close>

text \<open>
  The heap before anything is allocated, and the node \<open>Node("n")\<close> constructed there
  when the storage of \<open>number_of_clients_\<close> holds \<open>clients0\<close>.
\<close>

definition empty_world :: world where
  "empty_world = \<lparr>groups = Map.empty, next_id = 0\<rparr>"

definition first_node :: "64 word \<Rightarrow> world \<times> Node" where
  "first_node clients0 = Node_Node ''n'' 0 0 clients0 empty_world"

text \<open>
  The stored keys of the example of the design, \<open>{"a.b": 1, "a.b.c": 2, "a.x": 3}\<close>, as
  the argument of \<open>set_parameters\<close>.
\<close>

definition example_batch :: "Parameter list" where
  "example_batch =
     [\<lparr>name = ''a.b'', value = IntegerValue 1\<rparr>,
      \<lparr>name = ''a.b.c'', value = IntegerValue 2\<rparr>,
      \<lparr>name = ''a.x'', value = IntegerValue 3\<rparr>]"

subsection \<open>The nodes of a process\<close>

text \<open>
  The calls that write to the state of a node. (\<open>group_in_node\<close>, \<open>get_parameters\<close>,
  \<open>describe_parameters\<close>, \<open>get_parameter_types\<close> and \<open>list_parameters\<close> only read.) A
  call whose behaviour is undefined is no step; \<open>no_undefined_behaviour\<close> below shows
  that there is none on a constructed node.
\<close>

inductive node_call :: "world \<times> Node \<Rightarrow> world \<times> Node \<Rightarrow> bool" where
  call_create_callback_group:
    "create_callback_group t s = (g, s') \<Longrightarrow> node_call s s'"
| call_create_publisher:
    "create_publisher topic_name queue_size s = (pub, s') \<Longrightarrow> node_call s s'"
| call_create_subscription:
    "create_subscription topic_name queue_size grp s = (r, s') \<Longrightarrow>
     r \<noteq> Inl undefined_behaviour \<Longrightarrow> node_call s s'"
| call_create_wall_timer:
    "create_wall_timer period grp s = (r, s') \<Longrightarrow>
     r \<noteq> Inl undefined_behaviour \<Longrightarrow> node_call s s'"
| call_create_client:
    "create_client service_name grp s = (r, s') \<Longrightarrow>
     r \<noteq> Inl undefined_behaviour \<Longrightarrow> node_call s s'"
| call_create_service:
    "create_service service_name grp s = (r, s') \<Longrightarrow>
     r \<noteq> Inl undefined_behaviour \<Longrightarrow> node_call s s'"
| call_set_parameters:
    "set_parameters ps n = (rs, n') \<Longrightarrow> node_call (w, n) (w, n')"
| call_set_parameters_atomically:
    "set_parameters_atomically ps n = (r, n') \<Longrightarrow> node_call (w, n) (w, n')"

text \<open>
  The states of a process: the heap and its nodes, by address. A node is constructed;
  a node is called; a callback group is made outside any node; a callback group expires
  when its last shared pointer is dropped, which cannot happen while a node holds one in
  \<open>default_callback_group_\<close>. Nodes are not destroyed.
\<close>

inductive reachable :: "world \<times> (nat \<rightharpoonup> Node) \<Rightarrow> bool" where
  start: "reachable (empty_world, Map.empty)"
| construct:
    "reachable (w, nodes) \<Longrightarrow> nodes a = None \<Longrightarrow>
     Node_Node nm ctx handle clients0 w = (w', n) \<Longrightarrow>
     reachable (w', nodes(a \<mapsto> n))"
| call:
    "reachable (w, nodes) \<Longrightarrow> nodes a = Some n \<Longrightarrow>
     node_call (w, n) (w', n') \<Longrightarrow>
     reachable (w', nodes(a \<mapsto> n'))"
| new_group:
    "reachable (w, nodes) \<Longrightarrow> make_shared w = (g, w1) \<Longrightarrow>
     reachable (w1\<lparr>groups := (groups w1)(g \<mapsto> new_CallbackGroup t)\<rparr>, nodes)"
| expire:
    "reachable (w, nodes) \<Longrightarrow>
     \<forall>n \<in> ran nodes. default_callback_group n \<noteq> Some g \<Longrightarrow>
     reachable (w\<lparr>groups := (groups w)(g := None)\<rparr>, nodes)"

text \<open>The first node and a second node \<open>Node("m")\<close>, at the addresses 0 and 1.\<close>

definition two_nodes :: "world \<times> (nat \<rightharpoonup> Node)" where
  "two_nodes =
     (let (w1, n1) = first_node 0;
          (w2, n2) = Node_Node ''m'' 0 0 0 w1
      in (w2, [0 \<mapsto> n1, 1 \<mapsto> n2]))"

text \<open>
  What the proofs keep track of. \<open>keeps w w'\<close>: no identity is given back and every
  group allocated and live in \<open>w\<close> is live in \<open>w'\<close> with the same type. \<open>frame s s'\<close>: the
  step keeps the heap in this sense and the default group of the node, and only appends
  newly allocated groups to \<open>callback_groups\<close>. \<open>node_ok\<close>: the default group of the node
  is the first of its groups, live and mutually exclusive, and its groups have been
  allocated. \<open>system_ok\<close>: every node is in this state and no group is in two nodes.
\<close>

definition keeps :: "world \<Rightarrow> world \<Rightarrow> bool" where
  "keeps w w' \<longleftrightarrow>
     next_id w \<le> next_id w' \<and>
     (\<forall>g obj. g < next_id w \<longrightarrow> groups w g = Some obj \<longrightarrow>
        (\<exists>obj'. groups w' g = Some obj' \<and> group_type obj' = group_type obj))"

definition frame :: "world \<times> Node \<Rightarrow> world \<times> Node \<Rightarrow> bool" where
  "frame s s' \<longleftrightarrow>
     (case (s, s') of ((w, n), (w', n')) \<Rightarrow>
        keeps w w' \<and>
        default_callback_group n' = default_callback_group n \<and>
        (\<exists>new. callback_groups n' = callback_groups n @ new \<and>
               (\<forall>g \<in> set new. next_id w \<le> g \<and> g < next_id w')))"

definition node_ok :: "world \<Rightarrow> Node \<Rightarrow> bool" where
  "node_ok w n \<longleftrightarrow>
     (\<exists>d obj. default_callback_group n = Some d \<and> callback_groups n \<noteq> [] \<and>
        hd (callback_groups n) = d \<and> groups w d = Some obj \<and>
        group_type obj = MutuallyExclusive) \<and>
     (\<forall>g \<in> set (callback_groups n). g < next_id w)"

definition system_ok :: "world \<times> (nat \<rightharpoonup> Node) \<Rightarrow> bool" where
  "system_ok s \<longleftrightarrow>
     (case s of (w, nodes) \<Rightarrow>
        (\<forall>a n. nodes a = Some n \<longrightarrow> node_ok w n) \<and>
        (\<forall>a b n m g. a \<noteq> b \<longrightarrow> nodes a = Some n \<longrightarrow> nodes b = Some m \<longrightarrow>
           g \<in> set (callback_groups n) \<longrightarrow> g \<notin> set (callback_groups m)))"

section \<open>Properties of the parameter store\<close>

subsection \<open>The map operations\<close>

lemma map_of_map_assign: "map_of (map_assign k v m) = (map_of m)(k \<mapsto> v)"
  by (induction m) (auto simp: fun_upd_twist)

lemma keys_map_assign: "fst ` set (map_assign k v m) = insert k (fst ` set m)"
proof -
  have "dom (map_of (map_assign k v m)) = insert k (dom (map_of m))"
    by (simp add: map_of_map_assign)
  then show ?thesis by (simp only: dom_map_of_conv_image_fst)
qed

lemma map_ok_Cons: "map_ok ((k, v) # m) \<longleftrightarrow> (\<forall>k' \<in> fst ` set m. k < k') \<and> map_ok m"
  by (auto simp: map_ok_def)

lemma map_ok_map_assign: "map_ok m \<Longrightarrow> map_ok (map_assign k v m)"
proof (induction m)
  case Nil
  then show ?case by (simp add: map_ok_def)
next
  case (Cons e m)
  obtain k' v' where e: "e = (k', v')" by (cases e)
  from Cons.prems have below: "\<forall>x \<in> fst ` set m. k' < x" and ok: "map_ok m"
    by (simp_all add: e map_ok_Cons)
  show ?case
  proof (cases "k' < k")
    case True
    have "\<forall>x \<in> fst ` set (map_assign k v m). k' < x"
      using below True by (simp add: keys_map_assign)
    then show ?thesis using True Cons.IH [OF ok] by (simp add: e map_ok_Cons)
  next
    case False
    show ?thesis
    proof (cases "k' = k")
      case True
      then show ?thesis using below ok by (simp add: e map_ok_Cons)
    next
      case ne: False
      with False have "k < k'" by simp
      then show ?thesis using False ne below ok by (auto simp add: e map_ok_Cons)
    qed
  qed
qed

lemma keys_map_insert: "fst ` set (map_insert k v m) = insert k (fst ` set m)"
proof (induction m)
  case Nil
  show ?case by simp
next
  case (Cons e m)
  obtain k' v' where e: "e = (k', v')" by (cases e)
  show ?case using Cons.IH unfolding e by (simp add: insert_commute)
qed

lemma map_ok_map_insert: "map_ok m \<Longrightarrow> map_ok (map_insert k v m)"
proof (induction m)
  case Nil
  then show ?case by (simp add: map_ok_def)
next
  case (Cons e m)
  obtain k' v' where e: "e = (k', v')" by (cases e)
  from Cons.prems have below: "\<forall>x \<in> fst ` set m. k' < x" and ok: "map_ok m"
    by (simp_all add: e map_ok_Cons)
  show ?case
  proof (cases "k' < k")
    case True
    have "\<forall>x \<in> fst ` set (map_insert k v m). k' < x"
      using below True by (simp add: keys_map_insert)
    then show ?thesis using True Cons.IH [OF ok] by (simp add: e map_ok_Cons)
  next
    case False
    show ?thesis
    proof (cases "k' = k")
      case True
      then show ?thesis using below ok by (simp add: e map_ok_Cons)
    next
      case ne: False
      with False have "k < k'" by simp
      then show ?thesis using False ne below ok by (auto simp add: e map_ok_Cons)
    qed
  qed
qed

lemma map_of_None_below: "\<forall>x \<in> fst ` set m. (k::string) < x \<Longrightarrow> map_of m k = None"
  by (induction m) auto

lemma map_of_map_insert:
  "map_ok m \<Longrightarrow> map_of (map_insert k v m) = (case map_of m k of None \<Rightarrow> (map_of m)(k \<mapsto> v) | Some u \<Rightarrow> map_of m)"
proof (induction m)
  case Nil
  then show ?case by simp
next
  case (Cons e m)
  obtain k' v' where e: "e = (k', v')" by (cases e)
  from Cons.prems have below: "\<forall>x \<in> fst ` set m. k' < x" and ok: "map_ok m"
    by (simp_all add: e map_ok_Cons)
  show ?case
  proof (cases "k' < k")
    case True
    then have ne: "k' \<noteq> k" by auto
    show ?thesis using True ne Cons.IH [OF ok]
      by (auto simp: e fun_upd_twist split: option.splits)
  next
    case False
    show ?thesis
    proof (cases "k' = k")
      case True
      then show ?thesis by (simp add: e)
    next
      case ne: False
      with False have lt: "k < k'" by simp
      have "\<forall>x \<in> fst ` set m. k < x" using below lt by auto
      then have "map_of m k = None" by (rule map_of_None_below)
      then show ?thesis using False ne by (simp add: e)
    qed
  qed
qed

lemma map_ok_map_insert_range: "map_ok m \<Longrightarrow> map_ok (map_insert_range es m)"
  unfolding map_insert_range_def
  by (induction es arbitrary: m) (auto simp: map_ok_map_insert)

lemma map_of_map_insert_range:
  "map_ok m \<Longrightarrow> map_of (map_insert_range es m) = map_of es ++ map_of m"
  unfolding map_insert_range_def
proof (induction es arbitrary: m)
  case Nil
  then show ?case by simp
next
  case (Cons e es)
  obtain k v where e: "e = (k, v)" by (cases e)
  have ok: "map_ok (map_insert k v m)" using Cons.prems by (rule map_ok_map_insert)
  have "map_of (fold (\<lambda>(k, v). map_insert k v) es (map_insert k v m))
        = map_of es ++ map_of (map_insert k v m)"
    by (rule Cons.IH [OF ok])
  also have "\<dots> = map_of ((k, v) # es) ++ map_of m"
    by (rule ext) (auto simp: map_of_map_insert [OF Cons.prems] map_add_def split: option.splits)
  finally show ?case by (simp only: e fold_simps prod.case)
qed

lemma map_ok_fold_assign:
  "map_ok m \<Longrightarrow> map_ok (fold (\<lambda>p. map_assign (name p) (from_parameter p)) ps m)"
  by (induction ps arbitrary: m) (auto simp: map_ok_map_assign)

lemma map_of_fold_assign:
  "map_of (fold (\<lambda>p. map_assign (name p) (from_parameter p)) ps m)
   = map_of m ++ map_of (rev (map (\<lambda>p. (name p, from_parameter p)) ps))"
  by (induction ps arbitrary: m) (auto simp: map_of_map_assign)

lemma find_append:
  "find P (xs @ ys) = (case find P xs of None \<Rightarrow> find P ys | Some x \<Rightarrow> Some x)"
  by (induction xs) auto

lemma map_of_rev_batch:
  "map_of (rev (map (\<lambda>p. (name p, from_parameter p)) ps)) k
   = map_option from_parameter (find (\<lambda>p. name p = k) (rev ps))"
  by (induction ps) (auto simp: map_add_def find_append split: option.splits)

lemma map_ok_staging: "map_ok (staging ps)"
  unfolding staging_def by (rule map_ok_fold_assign) (simp add: map_ok_def)

lemma map_of_staging:
  "map_of (staging ps) k = map_option from_parameter (find (\<lambda>p. name p = k) (rev ps))"
  unfolding staging_def by (simp add: map_of_fold_assign map_of_rev_batch)

lemma map_ok_unique:
  assumes "map_ok xs" "map_ok ys" "map_of xs = map_of ys"
  shows "xs = ys"
proof -
  have dx: "distinct (map fst xs)" and sx: "sorted (map fst xs)"
    using assms(1) by (simp_all add: map_ok_def strict_sorted_iff)
  have dy: "distinct (map fst ys)" and sy: "sorted (map fst ys)"
    using assms(2) by (simp_all add: map_ok_def strict_sorted_iff)
  have eq: "set xs = set ys"
    using assms(3) dx dy by (simp add: map_of_inject_set)
  have "inj_on fst (set xs \<union> set ys)"
    using dx eq by (simp add: distinct_map)
  then show ?thesis
    using sx dx sy dy eq by (rule map_sorted_distinct_set_unique)
qed

lemma set_parameters_fold:
  "fold (\<lambda>p (results, n').
             (results @ [\<lparr>successful = True\<rparr>],
              n'\<lparr>parameters := map_assign (name p) (from_parameter p) (parameters n')\<rparr>))
          ps (rs, n)
   = (rs @ map (\<lambda>p. \<lparr>successful = True\<rparr>) ps,
      n\<lparr>parameters := fold (\<lambda>p. map_assign (name p) (from_parameter p)) ps (parameters n)\<rparr>)"
  by (induction ps arbitrary: rs n) auto

lemma set_parameters_eq:
  "set_parameters ps n
   = (map (\<lambda>p. \<lparr>successful = True\<rparr>) ps,
      n\<lparr>parameters := fold (\<lambda>p. map_assign (name p) (from_parameter p)) ps (parameters n)\<rparr>)"
  unfolding set_parameters_def by (simp add: set_parameters_fold)

lemma map_add_twice: "m ++ b ++ b = m ++ b"
  by (rule ext) (simp add: map_add_def split: option.splits)

subsection \<open>The node and the store of the example\<close>

lemma first_node_eq:
  "first_node c =
     (\<lparr>groups = [0 \<mapsto> new_CallbackGroup MutuallyExclusive], next_id = Suc 0\<rparr>,
      \<lparr>node_name = ''n'', node_context = 0, node_handle = 0,
       default_callback_group = Some 0, callback_groups = [0],
       number_of_subscriptions = 0, number_of_timers = 0,
       number_of_services = 0, number_of_clients = c,
       parameters = []\<rparr>)"
  by (simp add: first_node_def Node_Node_def create_callback_group_def make_shared_def
      empty_world_def)

lemma example_parameters:
  "parameters (snd (set_parameters example_batch (snd (first_node c)))) =
     [(''a.b'', \<lparr>variant_name = ''a.b'', variant_value = IntegerValue 1\<rparr>),
      (''a.b.c'', \<lparr>variant_name = ''a.b.c'', variant_value = IntegerValue 2\<rparr>),
      (''a.x'', \<lparr>variant_name = ''a.x'', variant_value = IntegerValue 3\<rparr>)]"
  by (simp add: first_node_eq example_batch_def set_parameters_def from_parameter_def)

subsection \<open>Listing parameters\<close>

text \<open>
  What the code lists: the keys of the store, in order, that some prefix matches; and a
  prefix followed by a dot matches a key only when the rest of the key after the prefix,
  the dot included, has fewer than \<open>depth\<close> dots. So depth 1 lists nothing.
\<close>

lemma any_of_iff: "any_of xs P \<longleftrightarrow> (\<exists>x \<in> set xs. P x)"
  by (induction xs) auto

lemma string_find_0: "string_find s t = Some 0 \<longleftrightarrow> prefix t s"
  by (cases s) auto

lemma matches_prefix_iff:
  "matches_prefix key depth pfx \<longleftrightarrow>
     prefix (pfx @ ''.'') key \<and>
     word_of_nat (count_list (drop (length pfx) key) CHR ''.'') < depth"
  by (simp add: matches_prefix_def string_find_0 substr_def Let_def)

lemma list_parameters_names:
  "concat (map parameter_names (list_parameters prefix_list depth n)) =
     filter (\<lambda>key. \<exists>pfx \<in> set prefix_list. matches_prefix key depth pfx)
       (map fst (parameters n))"
proof -
  have "concat (map parameter_names (fold (\<lambda>kv results.
             if any_of prefix_list (matches_prefix (fst kv) depth)
             then
               (let result = \<lparr>parameter_names = [fst kv], parameter_prefixes = []\<rparr>;
                    last_separator = find_last_of (fst kv) CHR ''.'';
                    pfx = substr0 (fst kv) last_separator;
                    result' =
                      (if pfx \<notin> set (parameter_prefixes result)
                       then result\<lparr>parameter_prefixes := parameter_prefixes result @ [pfx]\<rparr>
                       else result)
                in results @ [result'])
             else results) kvs acc))
        = concat (map parameter_names acc) @
          filter (\<lambda>key. \<exists>pfx \<in> set prefix_list. matches_prefix key depth pfx) (map fst kvs)"
    for kvs acc
    by (induction kvs arbitrary: acc) (auto simp: any_of_iff Let_def)
  from this [of "parameters n" "[]"] show ?thesis
    unfolding list_parameters_def by simp
qed

lemma count_list_le_length: "count_list xs x \<le> length xs"
  by (induction xs) auto

lemma matches_prefix_depth_1:
  assumes "length key < 2 ^ 64"
  shows "\<not> matches_prefix key 1 pfx"
proof
  assume "matches_prefix key 1 pfx"
  then have p: "prefix (pfx @ ''.'') key"
    and c: "(word_of_nat (count_list (drop (length pfx) key) CHR ''.'') :: 64 word) < 1"
    by (simp_all add: matches_prefix_iff)
  from p obtain rest where key: "key = pfx @ ''.'' @ rest"
    by (auto simp: prefix_def)
  let ?c = "count_list (drop (length pfx) key) CHR ''.''"
  have pos: "0 < ?c" by (simp add: key)
  have "?c \<le> length (drop (length pfx) key)" by (rule count_list_le_length)
  also have "\<dots> \<le> length key" by simp
  finally have "?c < 2 ^ 64" using assms by simp
  then have "unat (word_of_nat ?c :: 64 word) = ?c"
    by (simp add: unat_of_nat)
  with pos have "(word_of_nat ?c :: 64 word) \<noteq> 0"
    by (metis less_numeral_extra(3) unat_0)
  with c show False by simp
qed

lemma list_parameters_depth_1:
  assumes "\<forall>key \<in> fst ` set (parameters n). length key < 2 ^ 64"
  shows "concat (map parameter_names (list_parameters prefix_list 1 n)) = []"
  using assms by (auto simp: list_parameters_names filter_empty_conv matches_prefix_depth_1 simp del: concat_eq_Nil_conv)

text \<open>
  C1. The design lists a key under a prefix when the key begins with the prefix and a
  dot and what follows has fewer than \<open>depth\<close> dots, so that
  \<open>list_parameters(["a"], 1)\<close> over the keys \<open>a.b\<close>, \<open>a.b.c\<close> and \<open>a.x\<close> names \<open>a.b\<close> and
  \<open>a.x\<close>. The code counts the dots of \<open>kv.first.substr(prefix.length())\<close>, which still
  begins with the dot that separates the prefix: on these keys depth 1 lists nothing,
  and it is depth 2 that lists \<open>a.b\<close> and \<open>a.x\<close> without \<open>a.b.c\<close>.
\<close>

theorem list_parameters_depth_off_by_one:
  "list_parameters [''a''] 1 (snd (set_parameters example_batch (snd (first_node 0)))) = [] \<and>
   list_parameters [''a''] 2 (snd (set_parameters example_batch (snd (first_node 0)))) =
     [\<lparr>parameter_names = [''a.b''], parameter_prefixes = [''a'']\<rparr>,
      \<lparr>parameter_names = [''a.x''], parameter_prefixes = [''a'']\<rparr>]"
  unfolding list_parameters_def example_parameters
  by (simp add: matches_prefix_def substr_def substr0_def)

subsection \<open>The types of parameters\<close>

text \<open>What the code returns: one type for each entry of the store.\<close>

lemma get_parameter_types_map:
  "get_parameter_types names n =
     map (\<lambda>kv. if fst kv \<in> set names then get_type (snd kv) else PARAMETER_NOT_SET)
       (parameters n)"
proof -
  have "fold (\<lambda>kv results.
             if any_of names (\<lambda>nm. nm = fst kv)
             then results @ [get_type (snd kv)]
             else results @ [PARAMETER_NOT_SET]) kvs acc
        = acc @ map (\<lambda>kv. if fst kv \<in> set names then get_type (snd kv) else PARAMETER_NOT_SET) kvs"
    for kvs acc
    by (induction kvs arbitrary: acc) (auto simp: any_of_iff)
  from this [of "parameters n" "[]"] show ?thesis
    unfolding get_parameter_types_def by simp
qed

text \<open>
  C2. The design gives one type for each requested name, in the order of the request,
  and the "not set" type for a name that is not stored. The loop of
  \<open>get_parameter_types\<close> runs over the store instead: a request for the name \<open>missing\<close>
  on the empty store gives no entry at all, and the empty request on the store of the
  example gives "not set" three times, once for each stored parameter.
\<close>

theorem get_parameter_types_iterates_store:
  "get_parameter_types [''missing''] (snd (first_node 0)) = [] \<and>
   get_parameter_types [] (snd (set_parameters example_batch (snd (first_node 0)))) =
     [PARAMETER_NOT_SET, PARAMETER_NOT_SET, PARAMETER_NOT_SET]"
proof
  show "get_parameter_types [''missing''] (snd (first_node 0)) = []"
    by (simp add: get_parameter_types_def first_node_eq)
  show "get_parameter_types [] (snd (set_parameters example_batch (snd (first_node 0)))) =
     [PARAMETER_NOT_SET, PARAMETER_NOT_SET, PARAMETER_NOT_SET]"
    unfolding get_parameter_types_def example_parameters by simp
qed

subsection \<open>Setting parameters atomically\<close>

text \<open>
  C3. \<open>set_parameters_atomically\<close> reports success, writes no member of the node but
  the store, and leaves as the store a well-formed map in which every key holds the
  value of the staging map when the batch names the key (the value of the last
  parameter of the batch with that name) and otherwise the value it held before. The
  store is replaced in the one step of the call.
\<close>

theorem set_parameters_atomically_merge:
  "successful (fst (set_parameters_atomically ps n)) \<and>
   snd (set_parameters_atomically ps n)
     = n\<lparr>parameters := parameters (snd (set_parameters_atomically ps n))\<rparr> \<and>
   map_ok (parameters (snd (set_parameters_atomically ps n))) \<and>
   map_of (parameters (snd (set_parameters_atomically ps n))) k
     = (case map_of (staging ps) k of
          Some v \<Rightarrow> Some v
        | None \<Rightarrow> map_of (parameters n) k) \<and>
   map_of (staging ps) k = map_option from_parameter (find (\<lambda>p. name p = k) (rev ps))"
  by (simp add: set_parameters_atomically_def Let_def map_ok_map_insert_range map_ok_staging
      map_of_map_insert_range map_of_staging map_add_def split: option.splits)

subsection \<open>Setting parameters twice\<close>

text \<open>
  C8. \<open>set_parameters\<close> called a second time with the same list leaves every key of
  the store with the value it had after the first call; and on a store that is a map
  (its keys strictly increasing, as in every \<open>std::map\<close>) the second call returns the
  same results and leaves the very same node, hence the same parameter map, as the
  first call.
\<close>

theorem set_parameters_idempotent:
  "map_of (parameters (snd (set_parameters ps (snd (set_parameters ps n)))))
     = map_of (parameters (snd (set_parameters ps n))) \<and>
   (map_ok (parameters n) \<longrightarrow>
      set_parameters ps (snd (set_parameters ps n)) = set_parameters ps n)"
proof -
  let ?f = "fold (\<lambda>p. map_assign (name p) (from_parameter p)) ps"
  have same: "map_of (?f (?f (parameters n))) = map_of (?f (parameters n))"
    by (simp add: map_of_fold_assign map_add_twice)
  have "?f (?f (parameters n)) = ?f (parameters n)" if "map_ok (parameters n)"
  proof -
    have once: "map_ok (?f (parameters n))"
      using that by (rule map_ok_fold_assign)
    then have twice: "map_ok (?f (?f (parameters n)))"
      by (rule map_ok_fold_assign)
    from twice once same show ?thesis
      by (rule map_ok_unique)
  qed
  with same show ?thesis by (simp add: set_parameters_eq)
qed

theorem set_parameters_idempotent_witness:
  "map_ok (parameters (snd (first_node 0))) \<and>
   set_parameters example_batch (snd (set_parameters example_batch (snd (first_node 0))))
     = set_parameters example_batch (snd (first_node 0))"
proof -
  have ok: "map_ok (parameters (snd (first_node 0)))"
    by (simp add: first_node_eq map_ok_def)
  show ?thesis
    using ok set_parameters_idempotent [of example_batch "snd (first_node 0)"] by simp
qed

section \<open>Properties of the node\<close>

subsection \<open>The counters of a new node\<close>

text \<open>
  C10. A new node should count zero entities of each kind. The constructor sets the
  counters of subscriptions, timers and services to zero and leaves out the counter of
  clients, which keeps whatever it held: constructed where that member holds 7, the
  node counts 7 clients before any client is created and 8 after the first
  \<open>create_client\<close>, while the other three counters are zero.
\<close>

theorem number_of_clients_not_initialised:
  "number_of_clients (snd (Node_Node nm ctx handle clients0 w)) = clients0 \<and>
   number_of_clients (snd (first_node 7)) = 7 \<and>
   number_of_subscriptions (snd (first_node 7)) = 0 \<and>
   number_of_timers (snd (first_node 7)) = 0 \<and>
   number_of_services (snd (first_node 7)) = 0 \<and>
   number_of_clients (snd (snd (create_client ''s'' None (first_node 7)))) = 8"
  by (simp add: first_node_eq Node_Node_def create_callback_group_def create_client_def
      make_shared_def arrow_def)

subsection \<open>Membership of a group in a node\<close>

lemma fold_group_in_node:
  "fold (\<lambda>weak_group group_belongs_to_this_node.
             let cur_group = lock w weak_group
             in if cur_group \<noteq> None \<and> cur_group = grp then True
                else group_belongs_to_this_node) rs b
   \<longleftrightarrow> b \<or> (\<exists>r \<in> set rs. lock w r \<noteq> None \<and> lock w r = grp)"
  by (induction rs arbitrary: b) (auto simp: Let_def)

lemma group_in_node_iff:
  "group_in_node grp w n \<longleftrightarrow> (\<exists>r \<in> set (callback_groups n). lock w r \<noteq> None \<and> lock w r = grp)"
  unfolding group_in_node_def fold_group_in_node by simp

lemma lock_eq: "lock w r = (if groups w r = None then None else Some r)"
  by (simp add: lock_def split: option.splits)

lemma group_in_node_Some:
  "group_in_node (Some g) w n \<longleftrightarrow> g \<in> set (callback_groups n) \<and> groups w g \<noteq> None"
  by (auto simp: group_in_node_iff lock_eq)

lemma group_in_node_next_id:
  "group_in_node grp (w\<lparr>next_id := x\<rparr>) n = group_in_node grp w n"
  by (simp add: group_in_node_iff lock_eq)

lemma create_callback_group_eq:
  "create_callback_group t (w, n) =
     (next_id w,
      w\<lparr>next_id := Suc (next_id w), groups := (groups w)(next_id w \<mapsto> new_CallbackGroup t)\<rparr>,
      n\<lparr>callback_groups := callback_groups n @ [next_id w]\<rparr>)"
  by (simp add: create_callback_group_def make_shared_def)

lemma Node_Node_eq:
  "Node_Node nm ctx handle clients0 w =
     (w\<lparr>next_id := Suc (next_id w),
        groups := (groups w)(next_id w \<mapsto> new_CallbackGroup MutuallyExclusive)\<rparr>,
      \<lparr>node_name = nm, node_context = ctx, node_handle = handle,
       default_callback_group = Some (next_id w), callback_groups = [next_id w],
       number_of_subscriptions = 0, number_of_timers = 0,
       number_of_services = 0, number_of_clients = clients0,
       parameters = []\<rparr>)"
  by (simp add: Node_Node_def create_callback_group_eq)

subsection \<open>What every step keeps\<close>

lemma create_callback_group_frame:
  "create_callback_group t s = (g, s') \<Longrightarrow> frame s s'"
  by (cases s) (auto simp: create_callback_group_eq frame_def keeps_def)

lemma create_publisher_frame:
  "create_publisher topic_name queue_size s = (pub, s') \<Longrightarrow> frame s s'"
  by (cases s) (auto simp: create_publisher_def make_shared_def frame_def keeps_def)

lemma create_subscription_frame:
  "create_subscription topic_name queue_size grp s = (r, s') \<Longrightarrow> frame s s'"
  by (cases s)
     (auto simp: create_subscription_def make_shared_def frame_def keeps_def arrow_def
           add_subscription_def split: if_splits option.splits)

lemma create_wall_timer_frame:
  "create_wall_timer period grp s = (r, s') \<Longrightarrow> frame s s'"
  by (cases s)
     (auto simp: create_wall_timer_def make_shared_def frame_def keeps_def arrow_def
           add_timer_def split: if_splits option.splits)

lemma create_client_frame:
  "create_client service_name grp s = (r, s') \<Longrightarrow> frame s s'"
  by (cases s)
     (auto simp: create_client_def make_shared_def frame_def keeps_def arrow_def
           add_client_def split: if_splits option.splits)

lemma create_service_frame:
  "create_service service_name grp s = (r, s') \<Longrightarrow> frame s s'"
  by (cases s)
     (auto simp: create_service_def make_shared_def frame_def keeps_def arrow_def
           add_service_def split: if_splits option.splits)

lemma set_parameters_frame:
  "set_parameters ps n = (rs, n') \<Longrightarrow> frame (w, n) (w, n')"
  by (auto simp: set_parameters_eq frame_def keeps_def)

lemma set_parameters_atomically_frame:
  "set_parameters_atomically ps n = (r, n') \<Longrightarrow> frame (w, n) (w, n')"
  by (auto simp: set_parameters_atomically_def Let_def frame_def keeps_def)

lemma node_call_frame: "node_call s s' \<Longrightarrow> frame s s'"
  by (induction rule: node_call.induct)
     (simp_all add: create_callback_group_frame create_publisher_frame
        create_subscription_frame create_wall_timer_frame create_client_frame
        create_service_frame set_parameters_frame set_parameters_atomically_frame)

lemma node_ok_keeps:
  assumes "node_ok w n" "keeps w w'"
  shows "node_ok w' n"
proof -
  from assms(1) obtain d obj where d: "default_callback_group n = Some d"
    "callback_groups n \<noteq> []" "hd (callback_groups n) = d" "groups w d = Some obj"
    "group_type obj = MutuallyExclusive"
    and below: "\<forall>g \<in> set (callback_groups n). g < next_id w"
    unfolding node_ok_def by blast
  from d(2,3) have "d \<in> set (callback_groups n)" by auto
  with below have "d < next_id w" by blast
  with assms(2) d(4) obtain obj' where "groups w' d = Some obj'" "group_type obj' = group_type obj"
    unfolding keeps_def by blast
  moreover from assms(2) below have "\<forall>g \<in> set (callback_groups n). g < next_id w'"
    unfolding keeps_def by auto
  ultimately show ?thesis using d unfolding node_ok_def by auto
qed

lemma node_ok_frame:
  assumes "node_ok w n" "frame (w, n) (w', n')"
  shows "node_ok w' n'"
proof -
  from assms(2) obtain new where k: "keeps w w'"
    and dflt: "default_callback_group n' = default_callback_group n"
    and cg: "callback_groups n' = callback_groups n @ new"
    and new: "\<forall>g \<in> set new. next_id w \<le> g \<and> g < next_id w'"
    unfolding frame_def by auto
  from assms(1) k have ok: "node_ok w' n" by (rule node_ok_keeps)
  then show ?thesis using dflt cg new unfolding node_ok_def by auto
qed

lemma frame_keeps: "frame (w, n) (w', n') \<Longrightarrow> keeps w w'"
  by (simp add: frame_def)

lemma frame_disjoint:
  assumes "frame (w, n) (w', n')" "node_ok w m"
    "\<And>g. g \<in> set (callback_groups n) \<Longrightarrow> g \<notin> set (callback_groups m)"
    "g \<in> set (callback_groups n')"
  shows "g \<notin> set (callback_groups m)"
proof -
  from assms(1) obtain new where cg: "callback_groups n' = callback_groups n @ new"
    and new: "\<forall>g \<in> set new. next_id w \<le> g \<and> g < next_id w'"
    unfolding frame_def by auto
  from assms(2) have "\<forall>g \<in> set (callback_groups m). g < next_id w"
    unfolding node_ok_def by blast
  with new have "\<forall>g \<in> set new. g \<notin> set (callback_groups m)" by fastforce
  with assms(3,4) cg show ?thesis by auto
qed

lemma Node_Node_keeps: "Node_Node nm ctx handle clients0 w = (w', n) \<Longrightarrow> keeps w w'"
  by (auto simp: Node_Node_eq keeps_def)

lemma Node_Node_ok: "Node_Node nm ctx handle clients0 w = (w', n) \<Longrightarrow> node_ok w' n"
  by (auto simp: Node_Node_eq node_ok_def new_CallbackGroup_def)

lemma Node_Node_fresh:
  "Node_Node nm ctx handle clients0 w = (w', n) \<Longrightarrow> set (callback_groups n) = {next_id w}"
  by (auto simp: Node_Node_eq)

lemma node_ok_below: "node_ok w m \<Longrightarrow> g \<in> set (callback_groups m) \<Longrightarrow> g < next_id w"
  by (simp add: node_ok_def)

lemma new_group_keeps:
  "make_shared w = (g, w1) \<Longrightarrow> keeps w (w1\<lparr>groups := (groups w1)(g \<mapsto> obj)\<rparr>)"
  by (auto simp: make_shared_def keeps_def)

lemma node_ok_expire:
  "node_ok w n \<Longrightarrow> default_callback_group n \<noteq> Some g \<Longrightarrow>
   node_ok (w\<lparr>groups := (groups w)(g := None)\<rparr>) n"
  by (auto simp: node_ok_def)

lemma system_okI:
  assumes "\<And>a n. nodes a = Some n \<Longrightarrow> node_ok w n"
    and "\<And>a b n m g. a \<noteq> b \<Longrightarrow> nodes a = Some n \<Longrightarrow> nodes b = Some m \<Longrightarrow>
           g \<in> set (callback_groups n) \<Longrightarrow> g \<notin> set (callback_groups m)"
  shows "system_ok (w, nodes)"
  using assms unfolding system_ok_def by blast

lemma system_ok_node: "system_ok (w, nodes) \<Longrightarrow> nodes a = Some n \<Longrightarrow> node_ok w n"
  unfolding system_ok_def by blast

lemma system_ok_disjoint:
  "system_ok (w, nodes) \<Longrightarrow> a \<noteq> b \<Longrightarrow> nodes a = Some n \<Longrightarrow> nodes b = Some m \<Longrightarrow>
   g \<in> set (callback_groups n) \<Longrightarrow> g \<notin> set (callback_groups m)"
  unfolding system_ok_def by blast

lemma reachable_ok: "reachable s \<Longrightarrow> system_ok s"
proof (induction rule: reachable.induct)
  case start
  show ?case by (simp add: system_ok_def)
next
  case (construct w nodes a nm ctx handle clients0 w' n)
  note oks = system_ok_node [OF construct.IH]
  note disj = system_ok_disjoint [OF construct.IH]
  have k: "keeps w w'" using construct.hyps(3) by (rule Node_Node_keeps)
  have new: "node_ok w' n" using construct.hyps(3) by (rule Node_Node_ok)
  have fresh: "set (callback_groups n) = {next_id w}"
    using construct.hyps(3) by (rule Node_Node_fresh)
  have old: "next_id w \<notin> set (callback_groups m)" if "nodes b = Some m" for b m
    using node_ok_below [OF oks [OF that]] by blast
  show ?case
  proof (rule system_okI)
    fix b m
    assume "(nodes(a \<mapsto> n)) b = Some m"
    then consider "b = a" "m = n" | "b \<noteq> a" "nodes b = Some m"
      by (auto split: if_splits)
    then show "node_ok w' m"
    proof cases
      case 1
      then show ?thesis using new by simp
    next
      case 2
      then show ?thesis using oks k node_ok_keeps by blast
    qed
  next
    fix b c m k g
    assume bc: "b \<noteq> c" and b: "(nodes(a \<mapsto> n)) b = Some m"
      and c: "(nodes(a \<mapsto> n)) c = Some k" and g: "g \<in> set (callback_groups m)"
    show "g \<notin> set (callback_groups k)"
    proof (cases "b = a")
      case True
      then have "m = n" "c \<noteq> a" "nodes c = Some k" using b c bc by auto
      then show ?thesis using g fresh old by auto
    next
      case False
      then have bm: "nodes b = Some m" using b by simp
      show ?thesis
      proof (cases "c = a")
        case True
        then have "k = n" using c by simp
        then show ?thesis using g fresh old [OF bm] by auto
      next
        case False
        then have "nodes c = Some k" using c by simp
        from bc bm this g show ?thesis by (rule disj)
      qed
    qed
  qed
next
  case (call w nodes a n w' n')
  note oks = system_ok_node [OF call.IH]
  note disj = system_ok_disjoint [OF call.IH]
  have fr: "frame (w, n) (w', n')" using call.hyps(3) by (rule node_call_frame)
  have k: "keeps w w'" using fr by (rule frame_keeps)
  have new: "node_ok w' n'" using oks [OF call.hyps(2)] fr by (rule node_ok_frame)
  have sub: "set (callback_groups n) \<subseteq> set (callback_groups n')"
    using fr unfolding frame_def by auto
  have d1: "g \<notin> set (callback_groups m)"
    if b: "b \<noteq> a" "nodes b = Some m" and g: "g \<in> set (callback_groups n')" for b m g
  proof -
    have "\<And>g. g \<in> set (callback_groups n) \<Longrightarrow> g \<notin> set (callback_groups m)"
      using disj [OF _ call.hyps(2) b(2)] b(1) by blast
    with fr oks [OF b(2)] show ?thesis using g by (rule frame_disjoint)
  qed
  show ?case
  proof (rule system_okI)
    fix b m
    assume "(nodes(a \<mapsto> n')) b = Some m"
    then consider "b = a" "m = n'" | "b \<noteq> a" "nodes b = Some m"
      by (auto split: if_splits)
    then show "node_ok w' m"
    proof cases
      case 1
      then show ?thesis using new by simp
    next
      case 2
      then show ?thesis using oks k node_ok_keeps by blast
    qed
  next
    fix b c m k g
    assume bc: "b \<noteq> c" and b: "(nodes(a \<mapsto> n')) b = Some m"
      and c: "(nodes(a \<mapsto> n')) c = Some k" and g: "g \<in> set (callback_groups m)"
    show "g \<notin> set (callback_groups k)"
    proof (cases "b = a")
      case True
      then have "m = n'" "c \<noteq> a" "nodes c = Some k" using b c bc by auto
      then show ?thesis using g d1 by blast
    next
      case False
      then have bm: "nodes b = Some m" using b by simp
      show ?thesis
      proof (cases "c = a")
        case True
        then have "k = n'" using c by simp
        then show ?thesis using g d1 [OF False bm] by blast
      next
        case False
        then have "nodes c = Some k" using c by simp
        from bc bm this g show ?thesis by (rule disj)
      qed
    qed
  qed
next
  case (new_group w nodes g w1 t)
  have k: "keeps w (w1\<lparr>groups := (groups w1)(g \<mapsto> new_CallbackGroup t)\<rparr>)"
    using new_group.hyps(2) by (rule new_group_keeps)
  show ?case
  proof (rule system_okI)
    fix b m
    assume "nodes b = Some m"
    then have "node_ok w m" by (rule system_ok_node [OF new_group.IH])
    then show "node_ok (w1\<lparr>groups := (groups w1)(g \<mapsto> new_CallbackGroup t)\<rparr>) m"
      using k by (rule node_ok_keeps)
  next
    fix b c m k g'
    assume "b \<noteq> c" "nodes b = Some m" "nodes c = Some k" "g' \<in> set (callback_groups m)"
    then show "g' \<notin> set (callback_groups k)"
      by (rule system_ok_disjoint [OF new_group.IH])
  qed
next
  case (expire w nodes g)
  show ?case
  proof (rule system_okI)
    fix b m
    assume b: "nodes b = Some m"
    then have "m \<in> ran nodes" by (auto simp: ran_def)
    with expire.hyps(2) have "default_callback_group m \<noteq> Some g" by blast
    with system_ok_node [OF expire.IH b]
    show "node_ok (w\<lparr>groups := (groups w)(g := None)\<rparr>) m"
      by (rule node_ok_expire)
  next
    fix b c m k g'
    assume "b \<noteq> c" "nodes b = Some m" "nodes c = Some k" "g' \<in> set (callback_groups m)"
    then show "g' \<notin> set (callback_groups k)"
      by (rule system_ok_disjoint [OF expire.IH])
  qed
qed

lemma reachable_node_ok: "reachable (w, nodes) \<Longrightarrow> nodes a = Some n \<Longrightarrow> node_ok w n"
  using reachable_ok system_ok_node by blast

text \<open>
  On a constructed node no creating function dereferences a null or dangling pointer:
  the default group is live, and a group that passes \<open>group_in_node\<close> is live.
\<close>

lemma node_ok_default_live:
  "node_ok w n \<Longrightarrow> \<exists>d obj. default_callback_group n = Some d \<and> groups w d = Some obj"
  unfolding node_ok_def by blast

lemma no_undefined_behaviour:
  assumes "node_ok w n"
  shows "fst (create_subscription topic_name queue_size grp (w, n)) \<noteq> Inl undefined_behaviour"
    and "fst (create_wall_timer period grp (w, n)) \<noteq> Inl undefined_behaviour"
    and "fst (create_client service_name grp (w, n)) \<noteq> Inl undefined_behaviour"
    and "fst (create_service service_name grp (w, n)) \<noteq> Inl undefined_behaviour"
  using node_ok_default_live [OF assms]
  by (auto simp: create_subscription_def create_wall_timer_def create_client_def
      create_service_def make_shared_def arrow_def group_in_node_Some
      split: option.splits)

subsection \<open>The two nodes of the examples\<close>

lemma two_nodes_eq:
  "two_nodes =
     (\<lparr>groups = [0 \<mapsto> new_CallbackGroup MutuallyExclusive,
                 Suc 0 \<mapsto> new_CallbackGroup MutuallyExclusive],
       next_id = Suc (Suc 0)\<rparr>,
      [0 \<mapsto> snd (first_node 0),
       1 \<mapsto> \<lparr>node_name = ''m'', node_context = 0, node_handle = 0,
              default_callback_group = Some (Suc 0), callback_groups = [Suc 0],
              number_of_subscriptions = 0, number_of_timers = 0,
              number_of_services = 0, number_of_clients = 0,
              parameters = []\<rparr>])"
  by (simp add: two_nodes_def first_node_eq Node_Node_eq)

lemma reachable_first_node: "reachable (fst (first_node c), [0 \<mapsto> snd (first_node c)])"
proof -
  have "Node_Node ''n'' 0 0 c empty_world = (fst (first_node c), snd (first_node c))"
    by (simp add: first_node_def)
  with reachable.start show ?thesis
    by (rule reachable.construct [where nodes = Map.empty and a = 0, simplified])
qed

lemma reachable_two_nodes: "reachable two_nodes"
proof -
  obtain w2 n2 where m: "Node_Node ''m'' 0 0 0 (fst (first_node 0)) = (w2, n2)"
    by (cases "Node_Node ''m'' 0 0 0 (fst (first_node 0))")
  have "reachable (w2, [0 \<mapsto> snd (first_node 0), 1 \<mapsto> n2])"
    using reachable_first_node [of 0] _ m
    by (rule reachable.construct) simp
  moreover have "two_nodes = (w2, [0 \<mapsto> snd (first_node 0), 1 \<mapsto> n2])"
    by (simp add: two_nodes_def case_prod_beta m)
  ultimately show ?thesis by simp
qed

subsection \<open>\<open>group_in_node\<close>\<close>

lemma create_callback_group_in_node:
  "create_callback_group t (w, n) = (g, w', n') \<Longrightarrow>
   g \<in> set (callback_groups n') \<and> group_in_node (Some g) w' n'"
  by (auto simp: create_callback_group_eq group_in_node_Some)

lemma reachable_other_node:
  assumes "reachable (w, nodes)" "nodes a = Some na" "nodes b = Some nb" "a \<noteq> b"
    "g \<in> set (callback_groups na)"
  shows "\<not> group_in_node (Some g) w nb"
proof -
  have "system_ok (w, nodes)" using assms(1) by (rule reachable_ok)
  from this assms(4,2,3,5) have "g \<notin> set (callback_groups nb)"
    by (rule system_ok_disjoint)
  then show ?thesis by (simp add: group_in_node_Some)
qed

text \<open>
  C6. \<open>group_in_node\<close> is true exactly when one of the stored references of the node
  is live and resolves to the candidate; an expired reference resolves to the null
  pointer, which the loop passes over, and the function has no failing outcome. Hence
  the group that \<open>create_callback_group\<close> returns is in the node, and in every state of
  a process a group among the references of one node is in that node exactly while it
  is live, and is never in another node.
\<close>

theorem group_in_node_registry:
  "(group_in_node grp w n \<longleftrightarrow>
      (\<exists>r \<in> set (callback_groups n). lock w r \<noteq> None \<and> lock w r = grp)) \<and>
   (create_callback_group t (w, n) = (g, w', n') \<longrightarrow>
      g \<in> set (callback_groups n') \<and> group_in_node (Some g) w' n') \<and>
   (reachable (W, nodes) \<and> nodes a = Some na \<and> nodes b = Some nb \<and> a \<noteq> b \<and>
    h \<in> set (callback_groups na) \<longrightarrow>
      (group_in_node (Some h) W na \<longleftrightarrow> groups W h \<noteq> None) \<and>
      \<not> group_in_node (Some h) W nb)"
  using group_in_node_iff [of grp w n] create_callback_group_in_node [of t w n g w' n']
    reachable_other_node [of W nodes a na b nb h]
  by (simp add: group_in_node_Some)

theorem group_in_node_registry_witness:
  "create_callback_group Reentrant (first_node 0)
     = (1, fst (snd (create_callback_group Reentrant (first_node 0))),
        snd (snd (create_callback_group Reentrant (first_node 0)))) \<and>
   group_in_node (Some 1) (fst (snd (create_callback_group Reentrant (first_node 0))))
     (snd (snd (create_callback_group Reentrant (first_node 0)))) \<and>
   reachable two_nodes \<and>
   snd two_nodes 0 = Some (snd (first_node 0)) \<and>
   0 \<in> set (callback_groups (snd (first_node 0))) \<and>
   group_in_node (Some 0) (fst two_nodes) (snd (first_node 0)) \<and>
   \<not> group_in_node (Some 0) (fst two_nodes) (the (snd two_nodes 1))"
proof -
  have c: "create_callback_group Reentrant (fst (first_node 0), snd (first_node 0))
     = (1, fst (snd (create_callback_group Reentrant (first_node 0))),
        snd (snd (create_callback_group Reentrant (first_node 0))))"
    by (simp add: first_node_eq create_callback_group_eq)
  have r: "reachable (fst two_nodes, snd two_nodes)"
    using reachable_two_nodes by simp
  have a: "snd two_nodes 0 = Some (snd (first_node 0))"
    by (simp add: two_nodes_eq)
  have b: "snd two_nodes 1 = Some (the (snd two_nodes 1))"
    by (simp add: two_nodes_eq)
  have h: "0 \<in> set (callback_groups (snd (first_node 0)))"
    by (simp add: first_node_eq)
  have live: "groups (fst two_nodes) 0 \<noteq> None"
    by (simp add: two_nodes_eq)
  show ?thesis
    using group_in_node_registry [where grp = "Some 0" and w = "fst (first_node 0)"
        and n = "snd (first_node 0)" and t = Reentrant and g = 1
        and w' = "fst (snd (create_callback_group Reentrant (first_node 0)))"
        and n' = "snd (snd (create_callback_group Reentrant (first_node 0)))"
        and W = "fst two_nodes" and nodes = "snd two_nodes" and a = 0
        and na = "snd (first_node 0)" and b = 1 and nb = "the (snd two_nodes 1)" and h = 0]
      c r a b h live
    by simp
qed

subsection \<open>Creating an entity with a group of another node\<close>

text \<open>
  C4. When the group given to \<open>create_subscription\<close>, \<open>create_wall_timer\<close>,
  \<open>create_client\<close> or \<open>create_service\<close> is not in the node, the call throws the error
  that the group is not in the node, every callback group is as before, and the node,
  with its four counters, is as before.
\<close>

theorem create_with_group_not_in_node:
  assumes "\<not> group_in_node (Some g) w n"
  shows
    "(case create_subscription topic_name queue_size (Some g) (w, n) of
        (r, w', n') \<Rightarrow> (\<exists>e. r = Inl e \<and> GroupNotOwned e) \<and> groups w' = groups w \<and> n' = n) \<and>
     (case create_wall_timer period (Some g) (w, n) of
        (r, w', n') \<Rightarrow> (\<exists>e. r = Inl e \<and> GroupNotOwned e) \<and> groups w' = groups w \<and> n' = n) \<and>
     (case create_client service_name (Some g) (w, n) of
        (r, w', n') \<Rightarrow> (\<exists>e. r = Inl e \<and> GroupNotOwned e) \<and> groups w' = groups w \<and> n' = n) \<and>
     (case create_service service_name (Some g) (w, n) of
        (r, w', n') \<Rightarrow> (\<exists>e. r = Inl e \<and> GroupNotOwned e) \<and> groups w' = groups w \<and> n' = n)"
proof -
  have g: "\<not> group_in_node (Some g) (w\<lparr>next_id := Suc (next_id w)\<rparr>) n"
    using assms by (simp add: group_in_node_next_id)
  show ?thesis
    using g
    by (simp add: create_subscription_def create_wall_timer_def create_client_def
        create_service_def make_shared_def suffix_def)
qed

theorem create_with_group_not_in_node_witness:
  "\<not> group_in_node (Some 1) (fst two_nodes) (snd (first_node 0)) \<and>
   (case create_subscription ''topic'' 10 (Some 1) (fst two_nodes, snd (first_node 0)) of
      (r, w', n') \<Rightarrow> (\<exists>e. r = Inl e \<and> GroupNotOwned e) \<and> groups w' = groups (fst two_nodes) \<and>
        n' = snd (first_node 0)) \<and>
   (case create_wall_timer 1000 (Some 1) (fst two_nodes, snd (first_node 0)) of
      (r, w', n') \<Rightarrow> (\<exists>e. r = Inl e \<and> GroupNotOwned e) \<and> groups w' = groups (fst two_nodes) \<and>
        n' = snd (first_node 0)) \<and>
   (case create_client ''service'' (Some 1) (fst two_nodes, snd (first_node 0)) of
      (r, w', n') \<Rightarrow> (\<exists>e. r = Inl e \<and> GroupNotOwned e) \<and> groups w' = groups (fst two_nodes) \<and>
        n' = snd (first_node 0)) \<and>
   (case create_service ''service'' (Some 1) (fst two_nodes, snd (first_node 0)) of
      (r, w', n') \<Rightarrow> (\<exists>e. r = Inl e \<and> GroupNotOwned e) \<and> groups w' = groups (fst two_nodes) \<and>
        n' = snd (first_node 0))"
proof -
  have h: "\<not> group_in_node (Some 1) (fst two_nodes) (snd (first_node 0))"
    by (simp add: group_in_node_Some first_node_eq)
  show ?thesis
    using h create_with_group_not_in_node [OF h, of "''topic''" 10 1000 "''service''"]
    by simp
qed

subsection \<open>Creating an entity without a group\<close>

text \<open>
  C5. On a node whose default group \<open>d\<close> is live, each of the four creating functions
  called without a group returns the new entity, adds it to the set of its kind in the
  default group and changes nothing else in that group or in any other, and adds one
  (in \<open>size_t\<close>) to the counter of its kind and leaves the rest of the node as it was.
\<close>

theorem create_without_group_uses_default:
  assumes "default_callback_group n = Some d" and "groups w d = Some obj"
  shows
    "create_subscription topic_name queue_size None (w, n) =
       (Inr (next_id w),
        w\<lparr>next_id := Suc (next_id w),
          groups := (groups w)
            (d \<mapsto> obj\<lparr>subscriptions := insert (next_id w) (subscriptions obj)\<rparr>)\<rparr>,
        n\<lparr>number_of_subscriptions := number_of_subscriptions n + 1\<rparr>) \<and>
     create_wall_timer period None (w, n) =
       (Inr (next_id w),
        w\<lparr>next_id := Suc (next_id w),
          groups := (groups w)(d \<mapsto> obj\<lparr>timers := insert (next_id w) (timers obj)\<rparr>)\<rparr>,
        n\<lparr>number_of_timers := number_of_timers n + 1\<rparr>) \<and>
     create_client service_name None (w, n) =
       (Inr (next_id w),
        w\<lparr>next_id := Suc (next_id w),
          groups := (groups w)(d \<mapsto> obj\<lparr>clients := insert (next_id w) (clients obj)\<rparr>)\<rparr>,
        n\<lparr>number_of_clients := number_of_clients n + 1\<rparr>) \<and>
     create_service service_name None (w, n) =
       (Inr (next_id w),
        w\<lparr>next_id := Suc (next_id w),
          groups := (groups w)(d \<mapsto> obj\<lparr>services := insert (next_id w) (services obj)\<rparr>)\<rparr>,
        n\<lparr>number_of_services := number_of_services n + 1\<rparr>)"
  using assms
  by (simp add: create_subscription_def create_wall_timer_def create_client_def
      create_service_def make_shared_def arrow_def add_subscription_def add_timer_def
      add_client_def add_service_def)

theorem create_without_group_uses_default_witness:
  "default_callback_group (snd (first_node 0)) = Some 0 \<and>
   groups (fst (first_node 0)) 0 = Some (new_CallbackGroup MutuallyExclusive) \<and>
   fst (create_subscription ''topic'' 10 None (first_node 0)) = Inr 1 \<and>
   map_option subscriptions (groups (fst (snd (create_subscription ''topic'' 10 None (first_node 0)))) 0)
     = Some {1} \<and>
   number_of_subscriptions (snd (snd (create_subscription ''topic'' 10 None (first_node 0)))) = 1 \<and>
   number_of_timers (snd (snd (create_wall_timer 1000 None (first_node 0)))) = 1 \<and>
   number_of_clients (snd (snd (create_client ''service'' None (first_node 0)))) = 1 \<and>
   number_of_services (snd (snd (create_service ''service'' None (first_node 0)))) = 1 \<and>
   number_of_timers (snd (snd (create_subscription ''topic'' 10 None (first_node 0)))) = 0"
proof -
  have d: "default_callback_group (snd (first_node 0)) = Some 0"
    by (simp add: first_node_eq)
  have live: "groups (fst (first_node 0)) 0 = Some (new_CallbackGroup MutuallyExclusive)"
    by (simp add: first_node_eq)
  have n: "next_id (fst (first_node 0)) = 1"
    and c: "number_of_subscriptions (snd (first_node 0)) = 0"
      "number_of_timers (snd (first_node 0)) = 0"
      "number_of_clients (snd (first_node 0)) = 0"
      "number_of_services (snd (first_node 0)) = 0"
    and e: "subscriptions (new_CallbackGroup MutuallyExclusive) = {}"
    by (simp_all add: first_node_eq new_CallbackGroup_def)
  show ?thesis
    using d live n c e
      create_without_group_uses_default [OF d live, of "''topic''" 10 1000 "''service''"]
    by simp
qed

subsection \<open>Creating a publisher\<close>

text \<open>
  C7. \<open>create_publisher\<close> leaves the node, with its counters, and every callback group,
  the default group among them, as they were.
\<close>

theorem create_publisher_leaves_node_and_groups:
  "snd (snd (create_publisher topic_name queue_size (w, n))) = n \<and>
   groups (fst (snd (create_publisher topic_name queue_size (w, n)))) = groups w"
  by (simp add: create_publisher_def make_shared_def)

subsection \<open>The default callback group\<close>

lemma node_ok_default_in_node:
  "node_ok w n \<Longrightarrow> group_in_node (default_callback_group n) w n"
  unfolding node_ok_def by (auto simp: group_in_node_Some)

text \<open>
  C9. The constructor creates the default callback group as the only, hence first,
  group of the node and keeps a shared pointer to it. In every state of a process, after
  any calls on any nodes and after any other groups have been made or have expired, the
  default group of a node is still the first of its groups, is live, has the type
  \<open>MutuallyExclusive\<close>, and \<open>group_in_node\<close> holds for it.
\<close>

theorem default_callback_group_always_in_node:
  "default_callback_group (snd (Node_Node nm ctx handle clients0 w0)) = Some (next_id w0) \<and>
   callback_groups (snd (Node_Node nm ctx handle clients0 w0)) = [next_id w0] \<and>
   (reachable (w, nodes) \<and> nodes a = Some n \<longrightarrow>
      group_in_node (default_callback_group n) w n \<and>
      (\<exists>d obj. default_callback_group n = Some d \<and> callback_groups n \<noteq> [] \<and>
         hd (callback_groups n) = d \<and> groups w d = Some obj \<and>
         group_type obj = MutuallyExclusive))"
proof -
  have "node_ok w n" if "reachable (w, nodes)" "nodes a = Some n"
    using that by (rule reachable_node_ok)
  then show ?thesis
    using node_ok_default_in_node [of w n]
    by (auto simp: Node_Node_eq node_ok_def)
qed

theorem default_callback_group_always_in_node_witness:
  "reachable two_nodes \<and>
   snd two_nodes 0 = Some (snd (first_node 0)) \<and>
   group_in_node (default_callback_group (snd (first_node 0))) (fst two_nodes)
     (snd (first_node 0)) \<and>
   default_callback_group (snd (first_node 0)) = Some 0 \<and>
   hd (callback_groups (snd (first_node 0))) = 0 \<and>
   map_option group_type (groups (fst two_nodes) 0) = Some MutuallyExclusive"
proof -
  have r: "reachable (fst two_nodes, snd two_nodes)"
    using reachable_two_nodes by simp
  have a: "snd two_nodes 0 = Some (snd (first_node 0))"
    by (simp add: two_nodes_eq)
  have d: "default_callback_group (snd (first_node 0)) = Some 0"
    by (simp add: first_node_eq)
  show ?thesis
    using r a d
      default_callback_group_always_in_node [where w = "fst two_nodes"
        and nodes = "snd two_nodes" and a = 0 and n = "snd (first_node 0)"]
    by auto
qed

end
